theory Spec2Isabelle
  imports Main "HOL-Library.Sublist"
begin

section \<open>JavaScript values and objects\<close>

text \<open>
  Attribute values of nodes and edges are untyped in the source (\<^verbatim>\<open>any\<close>, \<^verbatim>\<open>unknown\<close>).
  The model covers the primitive values; numbers are restricted to the integers, on
  which strict equality \<^verbatim>\<open>===\<close> and the key equality of \<^verbatim>\<open>Map\<close> are both
  structural equality.
\<close>

datatype jsval = JUndefined | JNull | JBool bool | JNum int | JStr string

text \<open>A plain object: its own enumerable string-keyed properties.\<close>

type_synonym obj = "string \<rightharpoonup> jsval"

text \<open>Property read \<^verbatim>\<open>o.k\<close> on an object without that own property gives \<^verbatim>\<open>undefined\<close>.\<close>

definition prop_of :: "obj \<Rightarrow> string \<Rightarrow> jsval" where
  "prop_of ob k = (case ob k of None \<Rightarrow> JUndefined | Some v \<Rightarrow> v)"

text \<open>Truthiness, as tested by \<^verbatim>\<open>||\<close>, \<^verbatim>\<open>!\<close> and \<^verbatim>\<open>if\<close>.\<close>

fun truthy :: "jsval \<Rightarrow> bool" where
  "truthy JUndefined = False"
| "truthy JNull = False"
| "truthy (JBool b) = b"
| "truthy (JNum n) = (n \<noteq> 0)"
| "truthy (JStr s) = (s \<noteq> [])"

fun digits :: "nat \<Rightarrow> string" where
  "digits n = (if n < 10 then [char_of (48 + n)] else digits (n div 10) @ [char_of (48 + n mod 10)])"

text \<open>
  The conversion to a string, used by template literals and by property access
  \<^verbatim>\<open>o[v]\<close> with a computed key.
\<close>

fun to_string :: "jsval \<Rightarrow> string" where
  "to_string JUndefined = ''undefined''"
| "to_string JNull = ''null''"
| "to_string (JBool b) = (if b then ''true'' else ''false'')"
| "to_string (JNum n) = (if n < 0 then CHR ''-'' # digits (nat (- n)) else digits (nat n))"
| "to_string (JStr s) = s"

section \<open>The processing pipeline\<close>

text \<open>
  A \<^verbatim>\<open>Processor\<close> is a function of the flowing value and the context. It may mutate
  what it can reach and it may throw, so the model threads a world \<open>'w\<close> (everything
  mutable a processor can reach) and returns either the error thrown or the output with
  the new world.
\<close>

type_synonym ('a, 'c, 'w, 'e) Processor = "'a \<Rightarrow> 'c \<Rightarrow> 'w \<Rightarrow> 'e + ('a \<times> 'w)"

text \<open>
  The class \<^verbatim>\<open>ProcessingPipeline\<close>: the private array \<^verbatim>\<open>processors\<close> and the
  field \<^verbatim>\<open>context\<close>, an object with arbitrary top-level keys. The field is mutable:
  \<^verbatim>\<open>updateContext\<close> assigns to it, and a step that holds the pipeline can call
  \<^verbatim>\<open>updateContext\<close> while the pipeline runs. So the world of a step of the pipeline is
  a pair: the field \<^verbatim>\<open>this.context\<close> as it is now, and the rest of the world.
\<close>

record ('a, 'v, 'w, 'e) ProcessingPipeline =
  processors :: "('a, string \<rightharpoonup> 'v, (string \<rightharpoonup> 'v) \<times> 'w, 'e) Processor list"
  "context" :: "string \<rightharpoonup> 'v"


definition add ::
  "('a, 'v, 'w, 'e) ProcessingPipeline
     \<Rightarrow> ('a, string \<rightharpoonup> 'v, (string \<rightharpoonup> 'v) \<times> 'w, 'e) Processor
     \<Rightarrow> ('a, 'v, 'w, 'e) ProcessingPipeline" where
  "add this processor = this\<lparr>processors := processors this @ [processor]\<rparr>"

text \<open>
  \<^verbatim>\<open>Array.prototype.reduce\<close> with an initial value, for a callback that has effects
  and may throw: a throw leaves the loop at once.
\<close>

fun reduce :: "('a \<Rightarrow> 'p \<Rightarrow> 'w \<Rightarrow> 'e + ('a \<times> 'w)) \<Rightarrow> 'p list \<Rightarrow> 'a \<Rightarrow> 'w \<Rightarrow> 'e + ('a \<times> 'w)" where
  "reduce f [] acc w = Inr (acc, w)"
| "reduce f (p # ps) acc w =
     (case f acc p w of Inl e \<Rightarrow> Inl e | Inr (acc', w') \<Rightarrow> reduce f ps acc' w')"

text \<open>
  The callback \<^verbatim>\<open>(data, processor) => processor(data, this.context)\<close> reads the field
  anew at every step: a step receives the context as the steps before it left it. The
  steps run are those of the array when \<^verbatim>\<open>reduce\<close> starts (it does not visit what is
  appended while it runs). The result holds the output, the field as the run left it,
  and the rest of the world.
\<close>

definition execute ::
  "('a, 'v, 'w, 'e) ProcessingPipeline \<Rightarrow> 'a \<Rightarrow> 'w \<Rightarrow> 'e + ('a \<times> ((string \<rightharpoonup> 'v) \<times> 'w))" where
  "execute this input w =
     reduce (\<lambda>data processor st. processor data (fst st) st) (processors this) input
       (context this, w)"

fun executeMany ::
  "('a, 'v, 'w, 'e) ProcessingPipeline \<Rightarrow> 'a list \<Rightarrow> 'w
     \<Rightarrow> 'e + ('a list \<times> ((string \<rightharpoonup> 'v) \<times> 'w))" where
  "executeMany this [] w = Inr ([], (context this, w))"
| "executeMany this (input # inputs) w =
     (case execute this input w of
        Inl e \<Rightarrow> Inl e
      | Inr (out, (c, w')) \<Rightarrow>
          (case executeMany (this\<lparr>context := c\<rparr>) inputs w' of
             Inl e \<Rightarrow> Inl e
           | Inr (outs, st) \<Rightarrow> Inr (out # outs, st)))"

definition getContext :: "('a, 'v, 'w, 'e) ProcessingPipeline \<Rightarrow> (string \<rightharpoonup> 'v)" where
  "getContext this = context this"

text \<open>
  \<^verbatim>\<open>this.context = { ...this.context, ...updates }\<close>: a fresh object with the own
  properties of the old context, then those of \<^verbatim>\<open>updates\<close>.
\<close>

definition updateContext ::
  "('a, 'v, 'w, 'e) ProcessingPipeline \<Rightarrow> (string \<rightharpoonup> 'v) \<Rightarrow> ('a, 'v, 'w, 'e) ProcessingPipeline" where
  "updateContext this updates = this\<lparr>context := context this ++ updates\<rparr>"




section \<open>The graph store\<close>

text \<open>
  The store is the external library's \<^verbatim>\<open>DirectedGraph\<close>; the code under study only
  queries it. It is taken as a parameter: a record of the query methods the code calls,
  each with the meaning the library gives it. \<open>graph_nodes\<close> is \<^verbatim>\<open>graph.nodes()\<close>, the
  node keys in the store's native iteration order, and \<open>graph_edges\<close> is
  \<^verbatim>\<open>graph.edges()\<close>.
\<close>

record Graph =
  graph_nodes :: "string list"
  getNodeAttributes :: "string \<Rightarrow> obj"
  graph_edges :: "string list"
  extremities :: "string \<Rightarrow> string \<times> string"
  getEdgeAttributes :: "string \<Rightarrow> obj"
  inNeighbors :: "string \<Rightarrow> string list"
  outNeighbors :: "string \<Rightarrow> string list"
  neighbors :: "string \<Rightarrow> string list"

text \<open>
  Modelled from the spec: \<^verbatim>\<open>filterNodes\<close> of the external store, which is not part of
  the repository. It lists the node ids for which the predicate over (node id,
  attributes) holds, in the store's native node iteration order.
\<close>

definition filterNodes :: "Graph \<Rightarrow> (string \<Rightarrow> obj \<Rightarrow> bool) \<Rightarrow> string list" where
  "filterNodes graph predicate =
     filter (\<lambda>node. predicate node (getNodeAttributes graph node)) (graph_nodes graph)"

section \<open>Neighbor grouping\<close>

datatype direction = DirIn | DirOut | DirBoth

text \<open>
  An optional parameter with a default value: \<open>None\<close> is the omitted argument.
  The record of a neighbor is the object literal \<^verbatim>\<open>{ id, ...attributes }\<close>: the
  property \<^verbatim>\<open>id\<close> first, then every own property of the attributes, a later
  property replacing an earlier one of the same name.
\<close>

definition getConnectedNodes :: "Graph \<Rightarrow> string \<Rightarrow> direction option \<Rightarrow> obj list" where
  "getConnectedNodes graph nodeId direction_arg =
     (let direction = (case direction_arg of None \<Rightarrow> DirOut | Some d \<Rightarrow> d);
          neighborFn =
            (if direction = DirIn then inNeighbors graph
             else if direction = DirOut then outNeighbors graph
             else neighbors graph)
      in map (\<lambda>id. [''id'' \<mapsto> JStr id] ++ getNodeAttributes graph id) (neighborFn nodeId))"

datatype js_error = TypeError string

text \<open>
  The object literal \<^verbatim>\<open>{}\<close> inherits from \<^verbatim>\<open>Object.prototype\<close>. A read
  \<^verbatim>\<open>grouped[k]\<close> of a key that is not an own property finds the inherited property
  when \<open>k\<close> is one of these names; each is a function (or, for \<^verbatim>\<open>__proto__\<close>, the
  prototype object): truthy, and without a method \<^verbatim>\<open>push\<close>.
\<close>

definition Object_prototype_keys :: "string list" where
  "Object_prototype_keys =
     [''constructor'', ''hasOwnProperty'', ''isPrototypeOf'', ''propertyIsEnumerable'',
      ''toLocaleString'', ''toString'', ''valueOf'', ''__proto__'',
      ''__defineGetter__'', ''__defineSetter__'', ''__lookupGetter__'', ''__lookupSetter__'']"

text \<open>The key under which a record is filed: \<^verbatim>\<open>node.type || "unknown"\<close>, as a property key.\<close>

definition type_key :: "obj \<Rightarrow> string" where
  "type_key node =
     to_string (if truthy (prop_of node ''type'') then prop_of node ''type'' else JStr ''unknown'')"

text \<open>
  The loop of \<^verbatim>\<open>groupConnectedNodesByType\<close> over the connected records, \<open>grouped\<close>
  holding the own properties of the result object. An own property is an array
  (truthy), to which the record is pushed. With no own property, the test
  \<^verbatim>\<open>!grouped[type]\<close> sees the inherited value if there is one, creates no array, and
  the call of \<^verbatim>\<open>push\<close> throws.
\<close>

fun group_loop :: "(string \<rightharpoonup> obj list) \<Rightarrow> obj list \<Rightarrow> js_error + (string \<rightharpoonup> obj list)" where
  "group_loop grouped [] = Inr grouped"
| "group_loop grouped (node # rest) =
     (case grouped (type_key node) of
        Some arr \<Rightarrow> group_loop (grouped(type_key node \<mapsto> arr @ [node])) rest
      | None \<Rightarrow>
          if type_key node \<in> set Object_prototype_keys
          then Inl (TypeError ''grouped[type].push is not a function'')
          else group_loop (grouped(type_key node \<mapsto> [] @ [node])) rest)"

definition groupConnectedNodesByType ::
  "Graph \<Rightarrow> string \<Rightarrow> direction option \<Rightarrow> js_error + (string \<rightharpoonup> obj list)" where
  "groupConnectedNodesByType graph nodeId direction_arg =
     (let direction = (case direction_arg of None \<Rightarrow> DirOut | Some d \<Rightarrow> d);
          connected = getConnectedNodes graph nodeId (Some direction)
      in group_loop Map.empty connected)"

section \<open>The batch processor\<close>

text \<open>
  The world a step works in: the current state of the store that \<^verbatim>\<open>context.graph\<close>
  refers to, and whatever else the step's action can change.
\<close>

record 'u World =
  graph :: Graph
  user :: 'u

text \<open>
  \<^verbatim>\<open>for (const node of nodes) processFn(node, context)\<close>. Besides the outcome, the
  model returns the list of nodes on which the action was invoked, in the order of the
  invocations; an action that throws ends the loop.
\<close>

fun for_of :: "(string \<Rightarrow> 'w \<Rightarrow> 'e + 'w) \<Rightarrow> string list \<Rightarrow> 'w \<Rightarrow> string list \<times> ('e + 'w)" where
  "for_of body [] w = ([], Inr w)"
| "for_of body (node # rest) w =
     (case body node w of
        Inl e \<Rightarrow> ([node], Inl e)
      | Inr w' \<Rightarrow> (case for_of body rest w' of (invoked, r) \<Rightarrow> (node # invoked, r)))"

text \<open>
  The step selects the matching nodes of the store as it is when the step starts, then
  runs the action on each. It ignores its input and returns nothing (\<open>unit\<close>).
\<close>

definition createBatchProcessor ::
  "(string \<Rightarrow> obj \<Rightarrow> bool) \<Rightarrow> (string \<Rightarrow> 'c \<Rightarrow> 'u World \<Rightarrow> 'e + 'u World)
     \<Rightarrow> 'i \<Rightarrow> 'c \<Rightarrow> 'u World \<Rightarrow> string list \<times> ('e + (unit \<times> 'u World))" where
  "createBatchProcessor nodeFilter processFn = (\<lambda>input context w.
     (let nodes = filterNodes (graph w) nodeFilter
      in case for_of (\<lambda>node. processFn node context) nodes w of
           (invoked, Inl e) \<Rightarrow> (invoked, Inl e)
         | (invoked, Inr w') \<Rightarrow> (invoked, Inr ((), w'))))"

text \<open>
  Applying an action at a node after an outcome: nothing is applied after a throw.
  Folding it over a list of nodes, from a world, is the outcome of applying the action to
  the nodes in the order of the list, as far as the first throw.
\<close>

definition apply_after :: "('n \<Rightarrow> 'w \<Rightarrow> 'e + 'w) \<Rightarrow> 'n \<Rightarrow> 'e + 'w \<Rightarrow> 'e + 'w" where
  "apply_after action n outcome = (case outcome of Inl e \<Rightarrow> Inl e | Inr w \<Rightarrow> action n w)"

section \<open>The graph-to-output adapter and the link aggregator\<close>

record GraphOutput =
  nodes :: "obj list"
  links :: "obj list"

definition graphologyToD3 :: "Graph \<Rightarrow> GraphOutput" where
  "graphologyToD3 g =
     (let nodes = map (\<lambda>id. [''id'' \<mapsto> JStr id] ++ getNodeAttributes g id) (graph_nodes g);
          links = map (\<lambda>id. case extremities g id of (source, target) \<Rightarrow>
                    [''source'' \<mapsto> JStr source, ''target'' \<mapsto> JStr target] ++ getEdgeAttributes g id)
                  (graph_edges g)
      in \<lparr>nodes = nodes, links = links\<rparr>)"

text \<open>
  The options of \<^verbatim>\<open>graphologyToMD\<close>. An item is a mutable object: the model has a
  type \<open>'r\<close> of references to items and a world \<open>'w\<close> holding what the callbacks can
  read and change (the contents of the items, files written). Every callback but the
  filter acts on the world and may throw an error of type \<open>'e\<close>.
\<close>

record ('r, 'w, 'e) MDOptions =
  nodeFilter :: "(obj \<Rightarrow> bool) option"
  createEmptyItem :: "'w \<Rightarrow> 'e + ('r \<times> 'w)"
  populateItemFromNode :: "'r \<Rightarrow> obj \<Rightarrow> 'w \<Rightarrow> 'e + 'w"
  processLink :: "'r \<Rightarrow> obj \<Rightarrow> obj option \<Rightarrow> 'w \<Rightarrow> 'e + 'w"
  generateMarkdown :: "(jsval \<times> 'r) list \<Rightarrow> 'w \<Rightarrow> 'e + 'w"

text \<open>
  What the aggregator can end with: the \<^verbatim>\<open>Error\<close> it throws itself, with its message,
  or an error thrown by a callback.
\<close>

datatype 'e md_error = Error string | Thrown 'e

text \<open>
  The calls of the callbacks, recorded in the order they are made: the factory with the
  reference it returned (\<open>None\<close> when it threw), the others with their arguments.
\<close>

datatype 'r call =
    is_CreateEmptyItem: CreateEmptyItem "'r option"
  | is_PopulateItemFromNode: PopulateItemFromNode 'r obj
  | is_ProcessLink: ProcessLink 'r obj "obj option"
  | is_GenerateMarkdown: GenerateMarkdown "(jsval \<times> 'r) list"

text \<open>
  A \<^verbatim>\<open>Map\<close> keeps its entries in the order of first insertion: \<^verbatim>\<open>set\<close> on a key
  that is present replaces the value where it stands, on a new key it appends.
  \<^verbatim>\<open>has\<close> and \<^verbatim>\<open>get\<close> are \<open>map_of\<close>.
\<close>

fun map_set :: "('k \<times> 'v) list \<Rightarrow> 'k \<Rightarrow> 'v \<Rightarrow> ('k \<times> 'v) list" where
  "map_set [] k v = [(k, v)]"
| "map_set ((k', v') # kvs) k v = (if k' = k then (k, v) # kvs else (k', v') # map_set kvs k v)"

text \<open>
  The callback of the first \<^verbatim>\<open>find\<close>: a node with the id of the link's source
  that the filter, when one is supplied, accepts.
\<close>

definition source_matches :: "(obj \<Rightarrow> bool) option \<Rightarrow> obj \<Rightarrow> obj \<Rightarrow> bool" where
  "source_matches nf row n =
     (if prop_of n ''id'' \<noteq> prop_of row ''source'' then False
      else (case nf of Some f \<Rightarrow> f n | None \<Rightarrow> True))"

text \<open>The message of the error thrown when no node is found for the source.\<close>

definition no_node_found :: "obj \<Rightarrow> string" where
  "no_node_found row =
     ''No node found for '' @ to_string (prop_of row ''source'') @ '' => ''
       @ to_string (prop_of row ''target'')"

text \<open>
  Lines 83 to 89 of the loop body: find the target node by its id alone, call
  \<^verbatim>\<open>processLink\<close>, store the item under the link's source.
\<close>

definition fold_link ::
  "('r, 'w, 'e) MDOptions \<Rightarrow> obj list \<Rightarrow> obj \<Rightarrow> (jsval \<times> 'r) list \<Rightarrow> 'r \<Rightarrow> 'w
     \<Rightarrow> 'r call list \<times> ('e md_error + ((jsval \<times> 'r) list \<times> 'w))" where
  "fold_link opts nds row items data w =
     (let targetNode = find (\<lambda>n. prop_of n ''id'' = prop_of row ''target'') nds
      in case processLink opts data row targetNode w of
           Inl e \<Rightarrow> ([ProcessLink data row targetNode], Inl (Thrown e))
         | Inr w' \<Rightarrow>
             ([ProcessLink data row targetNode],
              Inr (map_set items (prop_of row ''source'') data, w')))"

text \<open>The body of the loop over \<^verbatim>\<open>rows.links\<close>, for one link.\<close>

definition process_row ::
  "('r, 'w, 'e) MDOptions \<Rightarrow> obj list \<Rightarrow> obj \<Rightarrow> (jsval \<times> 'r) list \<times> 'w
     \<Rightarrow> 'r call list \<times> ('e md_error + ((jsval \<times> 'r) list \<times> 'w))" where
  "process_row opts nds row s = (case s of (items, w) \<Rightarrow>
     (case map_of items (prop_of row ''source'') of
        Some data \<Rightarrow> fold_link opts nds row items data w
      | None \<Rightarrow>
          (case find (source_matches (nodeFilter opts) row) nds of
             None \<Rightarrow> ([], Inl (Error (no_node_found row)))
           | Some node \<Rightarrow>
               (case createEmptyItem opts w of
                  Inl e \<Rightarrow> ([CreateEmptyItem None], Inl (Thrown e))
                | Inr (data, w1) \<Rightarrow>
                    (case populateItemFromNode opts data node w1 of
                       Inl e \<Rightarrow>
                         ([CreateEmptyItem (Some data), PopulateItemFromNode data node],
                          Inl (Thrown e))
                     | Inr w2 \<Rightarrow>
                         (case fold_link opts nds row items data w2 of (cs, r) \<Rightarrow>
                            (CreateEmptyItem (Some data) # PopulateItemFromNode data node # cs,
                             r)))))))"

fun scan_links ::
  "('r, 'w, 'e) MDOptions \<Rightarrow> obj list \<Rightarrow> obj list \<Rightarrow> (jsval \<times> 'r) list \<times> 'w
     \<Rightarrow> 'r call list \<times> ('e md_error + ((jsval \<times> 'r) list \<times> 'w))" where
  "scan_links opts nds [] s = ([], Inr s)"
| "scan_links opts nds (row # rest) s =
     (case process_row opts nds row s of
        (cs, Inl e) \<Rightarrow> (cs, Inl e)
      | (cs, Inr s') \<Rightarrow> (case scan_links opts nds rest s' of (cs', r) \<Rightarrow> (cs @ cs', r)))"

text \<open>
  \<^verbatim>\<open>graphologyToMD\<close>: the calls made, and either the error that ended the run or the
  world the sink left.
\<close>

definition graphologyToMD ::
  "('r, 'w, 'e) MDOptions \<Rightarrow> GraphOutput \<Rightarrow> 'w \<Rightarrow> 'r call list \<times> ('e md_error + 'w)" where
  "graphologyToMD opts rows w =
     (case scan_links opts (nodes rows) (links rows) ([], w) of
        (cs, Inl e) \<Rightarrow> (cs, Inl e)
      | (cs, Inr (items, w')) \<Rightarrow>
          (case generateMarkdown opts items w' of
             Inl e \<Rightarrow> (cs @ [GenerateMarkdown items], Inl (Thrown e))
           | Inr w'' \<Rightarrow> (cs @ [GenerateMarkdown items], Inr w'')))"

section \<open>Observations on the calls of a run\<close>

text \<open>The sources of a list of links, in the order of the links.\<close>

abbreviation sources :: "obj list \<Rightarrow> jsval list" where
  "sources ls \<equiv> map (\<lambda>row. prop_of row ''source'') ls"

text \<open>
  What a list of calls did: the references the factory returned, the records populated
  (each with the id of the node it was populated from), and the links folded (each with
  the record it was folded into), all in the order of the calls.
\<close>

definition created :: "'r call list \<Rightarrow> 'r list" where
  "created cs = [d. CreateEmptyItem (Some d) \<leftarrow> cs]"

definition populated :: "'r call list \<Rightarrow> (jsval \<times> 'r) list" where
  "populated cs = [(prop_of n ''id'', d). PopulateItemFromNode d n \<leftarrow> cs]"

definition folded :: "'r call list \<Rightarrow> (obj \<times> 'r) list" where
  "folded cs = [(l, d). ProcessLink d l t \<leftarrow> cs]"

text \<open>
  Making a recorded call in a world: the outcome of the callback, or \<open>None\<close> when the
  record says of the factory what the factory does not do there (it returns another
  reference, or throws where the record has a reference).
\<close>

fun run_call :: "('r, 'w, 'e) MDOptions \<Rightarrow> 'r call \<Rightarrow> 'w \<Rightarrow> ('e + 'w) option" where
  "run_call opts (CreateEmptyItem returned) w =
     (case createEmptyItem opts w of
        Inl e \<Rightarrow> if returned = None then Some (Inl e) else None
      | Inr (d, w') \<Rightarrow> if returned = Some d then Some (Inr w') else None)"
| "run_call opts (PopulateItemFromNode d n) w = Some (populateItemFromNode opts d n w)"
| "run_call opts (ProcessLink d l t) w = Some (processLink opts d l t w)"
| "run_call opts (GenerateMarkdown items) w = Some (generateMarkdown opts items w)"

text \<open>
  Making a list of recorded calls in order, from a world. \<open>Some (Inr w')\<close>: every call
  returns, and they leave the world \<open>w'\<close>. \<open>Some (Inl e)\<close>: every call but the last
  returns and the last throws \<open>e\<close>. \<open>None\<close>: the list is not what happens (a call is
  recorded after one that throws, or the factory is misrecorded).
\<close>

fun replay :: "('r, 'w, 'e) MDOptions \<Rightarrow> 'r call list \<Rightarrow> 'w \<Rightarrow> ('e + 'w) option" where
  "replay opts [] w = Some (Inr w)"
| "replay opts (c # cs) w =
     (case run_call opts c w of
        None \<Rightarrow> None
      | Some (Inl e) \<Rightarrow> if cs = [] then Some (Inl e) else None
      | Some (Inr w') \<Rightarrow> replay opts cs w')"

section \<open>Example data\<close>

text \<open>
  A store with two items and a tier between them in the node order; and a store in which
  the item's only neighbor has the type \<^verbatim>\<open>constructor\<close>.
\<close>

definition armory_graph :: Graph where
  "armory_graph = \<lparr>
     graph_nodes = [''sword'', ''basic'', ''axe''],
     getNodeAttributes = (\<lambda>n. if n = ''basic'' then [''type'' \<mapsto> JStr ''tier'']
                              else [''type'' \<mapsto> JStr ''item'']),
     graph_edges = [''e1'', ''e2''],
     extremities = (\<lambda>e. if e = ''e1'' then (''sword'', ''basic'') else (''axe'', ''basic'')),
     getEdgeAttributes = (\<lambda>e. Map.empty),
     inNeighbors = (\<lambda>n. if n = ''basic'' then [''sword'', ''axe''] else []),
     outNeighbors = (\<lambda>n. if n = ''basic'' then [] else [''basic'']),
     neighbors = (\<lambda>n. if n = ''basic'' then [''sword'', ''axe''] else [''basic''])\<rparr>"

definition rune_graph :: Graph where
  "rune_graph = \<lparr>
     graph_nodes = [''sword'', ''rune''],
     getNodeAttributes = (\<lambda>n. if n = ''sword'' then [''type'' \<mapsto> JStr ''item'']
                              else [''type'' \<mapsto> JStr ''constructor'']),
     graph_edges = [''e1''],
     extremities = (\<lambda>e. (''sword'', ''rune'')),
     getEdgeAttributes = (\<lambda>e. Map.empty),
     inNeighbors = (\<lambda>n. if n = ''rune'' then [''sword''] else []),
     outNeighbors = (\<lambda>n. if n = ''sword'' then [''rune''] else []),
     neighbors = (\<lambda>n. if n = ''sword'' then [''rune''] else [''sword''])\<rparr>"

text \<open>
  Flattened nodes and links, and options in the manner of the example policy: an item is
  the list of the ids it has seen, the world is the list of the items created so far and
  a reference is an index into it. \<open>example_options\<close> throws when the target node is
  absent, \<open>lenient_options\<close> does not.
\<close>

definition node_A :: obj where "node_A = [''id'' \<mapsto> JStr ''A'', ''type'' \<mapsto> JStr ''item'']"
definition node_B :: obj where "node_B = [''id'' \<mapsto> JStr ''B'', ''type'' \<mapsto> JStr ''attribute'']"
definition node_C :: obj where "node_C = [''id'' \<mapsto> JStr ''C'', ''type'' \<mapsto> JStr ''tier'']"
definition link_AB :: obj where
  "link_AB = [''source'' \<mapsto> JStr ''A'', ''target'' \<mapsto> JStr ''B'', ''amount'' \<mapsto> JNum 7]"
definition link_CA :: obj where "link_CA = [''source'' \<mapsto> JStr ''C'', ''target'' \<mapsto> JStr ''A'']"

definition example_options :: "(nat, string list list, string) MDOptions" where
  "example_options = \<lparr>
     nodeFilter = Some (\<lambda>node. prop_of node ''type'' = JStr ''item''),
     createEmptyItem = (\<lambda>w. Inr (length w, w @ [[]])),
     populateItemFromNode = (\<lambda>data node w. Inr (w[data := [to_string (prop_of node ''id'')]])),
     processLink = (\<lambda>data link targetNode w.
       case targetNode of
         None \<Rightarrow> Inl ''No target node''
       | Some t \<Rightarrow> Inr (w[data := w ! data @ [to_string (prop_of t ''id'')]])),
     generateMarkdown = (\<lambda>items w. Inr w)\<rparr>"

definition node_D :: obj where "node_D = [''id'' \<mapsto> JStr ''D'', ''type'' \<mapsto> JStr ''item'']"
definition link_DB :: obj where "link_DB = [''source'' \<mapsto> JStr ''D'', ''target'' \<mapsto> JStr ''B'']"
definition link_DC :: obj where "link_DC = [''source'' \<mapsto> JStr ''D'', ''target'' \<mapsto> JStr ''C'']"


text \<open>Options whose sink writes the keys of the mapping, in their order, into the world.\<close>

definition writing_options :: "(nat, string list list, string) MDOptions" where
  "writing_options = example_options\<lparr>
     generateMarkdown := (\<lambda>items w. Inr (w @ [map (\<lambda>entry. to_string (fst entry)) items]))\<rparr>"

definition two_items :: GraphOutput where
  "two_items = \<lparr>nodes = [node_A, node_B, node_C, node_D], links = [link_DB, link_AB, link_DC]\<rparr>"

definition two_items_calls :: "nat call list" where
  "two_items_calls =
     [CreateEmptyItem (Some 0), PopulateItemFromNode 0 node_D, ProcessLink 0 link_DB (Some node_B),
      CreateEmptyItem (Some 1), PopulateItemFromNode 1 node_A, ProcessLink 1 link_AB (Some node_B),
      ProcessLink 0 link_DC (Some node_C),
      GenerateMarkdown [(JStr ''D'', 0), (JStr ''A'', 1)]]"


section \<open>Properties of the pipeline\<close>






text \<open>
  Claim C8. \<^verbatim>\<open>updateContext\<close> merges shallowly: in the context read back by
  \<^verbatim>\<open>getContext\<close>, a top-level key of the partial update has the update's value, whatever
  the old one was, and every other key has what it had before. The merge builds a new
  context: the steps of the pipeline are untouched.
\<close>

theorem updateContext_shallow_merge:
  "getContext (updateContext this updates) k =
     (if k \<in> dom updates then updates k else getContext this k)
   \<and> processors (updateContext this updates) = processors this"
  by (auto simp: getContext_def updateContext_def map_add_def split: option.splits)

section \<open>Properties of the neighbor grouping\<close>

text \<open>
  Claim C9. The record that \<^verbatim>\<open>getConnectedNodes\<close> builds for a neighbor, and the
  node object that \<^verbatim>\<open>graphologyToD3\<close> builds for a node, have in their \<^verbatim>\<open>id\<close>
  property the value of the attribute named \<^verbatim>\<open>id\<close> when the node's attributes have
  one, and the node's own id only when they have none.
\<close>

theorem id_attribute_overrides_node_id:
  "map (\<lambda>r. r ''id'') (getConnectedNodes g x d) =
     map (\<lambda>n. case getNodeAttributes g n ''id'' of Some v \<Rightarrow> Some v | None \<Rightarrow> Some (JStr n))
       (case d of None \<Rightarrow> outNeighbors g x | Some DirIn \<Rightarrow> inNeighbors g x
        | Some DirOut \<Rightarrow> outNeighbors g x | Some DirBoth \<Rightarrow> neighbors g x)
   \<and> map (\<lambda>r. r ''id'') (nodes (graphologyToD3 g)) =
     map (\<lambda>n. case getNodeAttributes g n ''id'' of Some v \<Rightarrow> Some v | None \<Rightarrow> Some (JStr n))
       (graph_nodes g)"
  by (auto simp: getConnectedNodes_def graphologyToD3_def map_add_def Let_def
      split: option.splits direction.splits)

text \<open>
  Claim C10. Without a direction argument, \<^verbatim>\<open>getConnectedNodes\<close> and
  \<^verbatim>\<open>groupConnectedNodesByType\<close> do what they do for the outgoing direction: the
  records are those of the out-neighbors.
\<close>

theorem default_direction_is_out:
  "getConnectedNodes g x None = getConnectedNodes g x (Some DirOut)
   \<and> groupConnectedNodesByType g x None = groupConnectedNodesByType g x (Some DirOut)
   \<and> getConnectedNodes g x None =
       map (\<lambda>id. [''id'' \<mapsto> JStr id] ++ getNodeAttributes g id) (outNeighbors g x)"
  by (simp add: getConnectedNodes_def groupConnectedNodesByType_def)

text \<open>
  When the loop returns, the group of a key is the list of the records filed under that
  key, in their order among the records, and a key under which no record is filed has no
  group: every record is in exactly one group.
\<close>

lemma group_loop_filter:
  "group_loop acc ns = Inr g \<Longrightarrow>
     g k = (case acc k of
              None \<Rightarrow> (if filter (\<lambda>n. type_key n = k) ns = [] then None
                        else Some (filter (\<lambda>n. type_key n = k) ns))
            | Some arr \<Rightarrow> Some (arr @ filter (\<lambda>n. type_key n = k) ns))"
proof (induction ns arbitrary: acc)
  case Nil
  then show ?case by (auto split: option.splits)
next
  case (Cons n ns)
  show ?case
  proof (cases "acc (type_key n)")
    case None
    with Cons.prems have run: "group_loop (acc(type_key n \<mapsto> [] @ [n])) ns = Inr g"
      by (auto split: if_splits)
    from Cons.IH[OF run] None show ?thesis
      by (auto split: option.splits)
  next
    case (Some arr)
    with Cons.prems have run: "group_loop (acc(type_key n \<mapsto> arr @ [n])) ns = Inr g"
      by simp
    from Cons.IH[OF run] Some show ?thesis
      by (auto split: option.splits)
  qed
qed

text \<open>The loop returns when no record has a key that \<^verbatim>\<open>Object.prototype\<close> defines.\<close>

lemma group_loop_returns:
  "(\<forall>n \<in> set ns. type_key n \<notin> set Object_prototype_keys) \<Longrightarrow> \<exists>g. group_loop acc ns = Inr g"
  by (induction ns arbitrary: acc) (auto split: option.splits)

lemma group_loop_throws:
  "group_loop acc ns = Inl e \<Longrightarrow> \<exists>n \<in> set ns. type_key n \<in> set Object_prototype_keys"
  by (induction ns arbitrary: acc) (auto split: option.splits if_splits)

text \<open>
  Claim C5 says that \<^verbatim>\<open>groupConnectedNodesByType\<close> files every neighbor record in
  exactly one group, under its type. The code does not do so for every node: for a
  neighbor whose type is \<^verbatim>\<open>constructor\<close> (or any other name that
  \<^verbatim>\<open>Object.prototype\<close> defines), the test \<^verbatim>\<open>!grouped[type]\<close> finds the inherited
  property, no array is created, and the call of \<^verbatim>\<open>push\<close> throws a TypeError; no
  grouping is returned.
\<close>

theorem groupConnectedNodesByType_prototype_key_throws:
  "groupConnectedNodesByType rune_graph ''sword'' None
     = Inl (TypeError ''grouped[type].push is not a function'')"
  by (simp add: groupConnectedNodesByType_def getConnectedNodes_def rune_graph_def
        type_key_def prop_of_def map_add_def Object_prototype_keys_def)

section \<open>Properties of the batch processor\<close>

lemma for_of_invoked:
  "for_of body ns w = (invoked, r) \<Longrightarrow> prefix invoked ns \<and> (\<not> isl r \<longrightarrow> invoked = ns)"
proof (induction ns arbitrary: w invoked r)
  case Nil
  then show ?case by simp
next
  case (Cons n ns)
  show ?case
  proof (cases "body n w")
    case (Inl e)
    with Cons.prems have "invoked = [n]" "r = Inl e" by simp_all
    then show ?thesis by simp
  next
    case (Inr w1)
    obtain inv1 r1 where rest: "for_of body ns w1 = (inv1, r1)"
      by (cases "for_of body ns w1")
    with Cons.prems Inr have "invoked = n # inv1" "r = r1" by simp_all
    with Cons.IH[OF rest] show ?thesis by simp
  qed
qed

lemma fold_apply_after_thrown: "fold (apply_after body) ns (Inl e) = Inl e"
  by (induction ns) (simp_all add: apply_after_def)

text \<open>
  The outcome of the loop is the outcome of applying the body to the nodes in order; the
  nodes recorded as invoked are those the body was applied to: applying the body to them
  gives the same outcome, and when the loop ends with a throw, it is the last of them
  that threw.
\<close>

lemma for_of_outcome:
  "for_of body ns w = (invoked, r) \<Longrightarrow>
     r = fold (apply_after body) ns (Inr w)
     \<and> r = fold (apply_after body) invoked (Inr w)
     \<and> (isl r \<longrightarrow> invoked \<noteq> [] \<and> \<not> isl (fold (apply_after body) (butlast invoked) (Inr w)))"
proof (induction ns arbitrary: w invoked r)
  case Nil
  then show ?case by auto
next
  case (Cons n ns)
  show ?case
  proof (cases "body n w")
    case (Inl e)
    with Cons.prems have "invoked = [n]" "r = Inl e" by simp_all
    moreover have "apply_after body n (Inr w) = Inl e"
      by (simp add: apply_after_def Inl)
    ultimately show ?thesis
      by (simp add: fold_apply_after_thrown)
  next
    case (Inr w1)
    obtain inv1 r1 where rest: "for_of body ns w1 = (inv1, r1)"
      by (cases "for_of body ns w1")
    with Cons.prems Inr have inv: "invoked = n # inv1" and r: "r = r1" by simp_all
    have step: "apply_after body n (Inr w) = Inr w1"
      by (simp add: apply_after_def Inr)
    from Cons.IH[OF rest]
    have a: "r1 = fold (apply_after body) ns (Inr w1)"
      and b: "r1 = fold (apply_after body) inv1 (Inr w1)"
      and c: "isl r1 \<longrightarrow> inv1 \<noteq> [] \<and> \<not> isl (fold (apply_after body) (butlast inv1) (Inr w1))"
      by blast+
    have "r = fold (apply_after body) (n # ns) (Inr w)"
      using a by (simp add: r step)
    moreover have "r = fold (apply_after body) invoked (Inr w)"
      using b by (simp add: r inv step)
    moreover have "isl r \<longrightarrow> invoked \<noteq> []
        \<and> \<not> isl (fold (apply_after body) (butlast invoked) (Inr w))"
      using c by (simp add: r inv step)
    ultimately show ?thesis by blast
  qed
qed

lemma count_list_distinct:
  "distinct xs \<Longrightarrow> count_list xs x = (if x \<in> set xs then 1 else 0)"
  by (induction xs) auto

text \<open>
  Claim C7. The step built by \<^verbatim>\<open>createBatchProcessor\<close> applies the action to the
  nodes that satisfy the predicate, in the store's node iteration order, as far as the
  first throw: its outcome is the outcome of applying the action to the matching nodes
  in that order, from the world the step starts in, and its output is the unit value.
  The nodes the action was invoked on are a prefix of the matching nodes (never a node
  that does not match): applying the action to them in order gives the outcome of the
  step; they are all the matching nodes when the step returns; and when the step ends
  with a throw, the action returned on all of them but the last. With the node ids of
  the store distinct, a step that returns has invoked the action once on every matching
  node and never on another. The step ignores its input.
\<close>

theorem createBatchProcessor_invocations:
  assumes run: "createBatchProcessor selects processFn input ctx w = (invoked, r)"
  shows "r = map_sum id (Pair ())
             (fold (apply_after (\<lambda>n. processFn n ctx))
                (filter (\<lambda>n. selects n (getNodeAttributes (graph w) n)) (graph_nodes (graph w)))
                (Inr w))
       \<and> map_sum id snd r = fold (apply_after (\<lambda>n. processFn n ctx)) invoked (Inr w)
       \<and> (isl r \<longrightarrow> invoked \<noteq> []
            \<and> \<not> isl (fold (apply_after (\<lambda>n. processFn n ctx)) (butlast invoked) (Inr w)))
       \<and> prefix invoked
           (filter (\<lambda>n. selects n (getNodeAttributes (graph w) n)) (graph_nodes (graph w)))
       \<and> (\<not> isl r \<longrightarrow>
            invoked = filter (\<lambda>n. selects n (getNodeAttributes (graph w) n)) (graph_nodes (graph w)))
       \<and> (\<not> isl r \<longrightarrow> distinct (graph_nodes (graph w)) \<longrightarrow>
            (\<forall>n. count_list invoked n =
               (if n \<in> set (graph_nodes (graph w)) \<and> selects n (getNodeAttributes (graph w) n)
                then 1 else 0)))
       \<and> createBatchProcessor selects processFn input' ctx w = (invoked, r)"
proof -
  let ?matching = "filter (\<lambda>n. selects n (getNodeAttributes (graph w) n)) (graph_nodes (graph w))"
  let ?body = "\<lambda>n. processFn n ctx"
  obtain r0 where loop: "for_of ?body ?matching w = (invoked, r0)"
    and r: "r = (case r0 of Inl e \<Rightarrow> Inl e | Inr w' \<Rightarrow> Inr ((), w'))"
    using run
    by (auto simp: createBatchProcessor_def filterNodes_def Let_def split: prod.splits sum.splits)
  have r': "r = map_sum id (Pair ()) r0"
    by (simp add: r split: sum.splits)
  have r0: "map_sum id snd r = r0"
    by (simp add: r split: sum.splits)
  have same: "isl r = isl r0"
    by (simp add: r split: sum.splits)
  from for_of_outcome[OF loop]
  have o1: "r0 = fold (apply_after ?body) ?matching (Inr w)"
    and o2: "r0 = fold (apply_after ?body) invoked (Inr w)"
    and o3: "isl r0 \<longrightarrow> invoked \<noteq> [] \<and> \<not> isl (fold (apply_after ?body) (butlast invoked) (Inr w))"
    by blast+
  have c1: "r = map_sum id (Pair ()) (fold (apply_after ?body) ?matching (Inr w))"
    using o1 r' by simp
  have c2: "map_sum id snd r = fold (apply_after ?body) invoked (Inr w)"
    using o2 r0 by simp
  have c3: "isl r \<longrightarrow> invoked \<noteq> [] \<and> \<not> isl (fold (apply_after ?body) (butlast invoked) (Inr w))"
    using o3 same by simp
  from for_of_invoked[OF loop] have pre: "prefix invoked ?matching"
    and all: "\<not> isl r \<longrightarrow> invoked = ?matching"
    by (simp_all add: same)
  have once: "\<not> isl r \<longrightarrow> distinct (graph_nodes (graph w)) \<longrightarrow>
      (\<forall>n. count_list invoked n =
         (if n \<in> set (graph_nodes (graph w)) \<and> selects n (getNodeAttributes (graph w) n)
          then 1 else 0))"
    using all by (auto simp: count_list_distinct)
  have ign: "createBatchProcessor selects processFn input' ctx w = (invoked, r)"
    using run by (simp add: createBatchProcessor_def)
  show ?thesis
    by (rule conjI[OF c1 conjI[OF c2 conjI[OF c3 conjI[OF pre conjI[OF all conjI[OF once ign]]]]]])
qed

text \<open>
  The step at a store with two matching nodes and a node between them that does not
  match, for an action that appends the node to a list: the action is invoked on the two
  items, in the order of the store, and the list holds both.
\<close>

theorem createBatchProcessor_invocations_witness:
  "createBatchProcessor (\<lambda>node attributes. prop_of attributes ''type'' = JStr ''item'')
       (\<lambda>node context w. Inr (w\<lparr>user := user w @ [node]\<rparr>)) () ()
       \<lparr>graph = armory_graph, user = []\<rparr>
     = ([''sword'', ''axe''],
        (Inr ((), \<lparr>graph = armory_graph, user = [''sword'', ''axe'']\<rparr>)
           :: unit + unit \<times> string list World))"
proof -
  let ?run = "createBatchProcessor (\<lambda>node attributes. prop_of attributes ''type'' = JStr ''item'')
       (\<lambda>node context w. Inr (w\<lparr>user := user w @ [node]\<rparr>)) () ()
       \<lparr>graph = armory_graph, user = ([] :: string list)\<rparr>
     :: string list \<times> (unit + unit \<times> string list World)"
  have pair: "?run = (fst ?run, snd ?run)"
    by simp
  note facts = createBatchProcessor_invocations[OF pair]
  have matching: "filter (\<lambda>n. prop_of (getNodeAttributes armory_graph n) ''type'' = JStr ''item'')
      (graph_nodes armory_graph) = [''sword'', ''axe'']"
    by (simp add: armory_graph_def prop_of_def)
  from facts[THEN conjunct1]
  have outcome: "snd ?run = Inr ((), \<lparr>graph = armory_graph, user = [''sword'', ''axe'']\<rparr>)"
    by (simp add: matching apply_after_def)
  then have "\<not> isl (snd ?run)"
    by simp
  with facts[THEN conjunct2, THEN conjunct2, THEN conjunct2, THEN conjunct2, THEN conjunct1]
  have "fst ?run = [''sword'', ''axe'']"
    by (simp add: matching)
  with outcome show ?thesis
    by (simp add: prod_eq_iff)
qed

section \<open>Properties of the link aggregator\<close>

lemma map_set_present: "map_of items k = Some d \<Longrightarrow> map_set items k d = items"
  by (induction items) (auto split: if_splits)

lemma map_set_absent: "map_of items k = None \<Longrightarrow> map_set items k d = items @ [(k, d)]"
  by (induction items) (auto split: if_splits)

lemma fold_link_result:
  "fold_link opts nds row items d w =
     ([ProcessLink d row (find (\<lambda>n. prop_of n ''id'' = prop_of row ''target'') nds)],
      case processLink opts d row (find (\<lambda>n. prop_of n ''id'' = prop_of row ''target'') nds) w of
        Inl e \<Rightarrow> Inl (Thrown e)
      | Inr w' \<Rightarrow> Inr (map_set items (prop_of row ''source'') d, w'))"
  by (auto simp: fold_link_def Let_def split: sum.splits)


lemma process_row_missing:
  assumes "map_of items (prop_of row ''source'') = None"
    and "find (source_matches (nodeFilter opts) row) nds = None"
  shows "process_row opts nds row (items, w) = ([], Inl (Error (no_node_found row)))"
  using assms by (simp add: process_row_def)

lemma process_row_new:
  assumes "map_of items (prop_of row ''source'') = None"
    and "find (source_matches (nodeFilter opts) row) nds = Some node"
    and "createEmptyItem opts w = Inr (d, w1)"
    and "populateItemFromNode opts d node w1 = Inr w2"
  shows "process_row opts nds row (items, w) =
     ([CreateEmptyItem (Some d), PopulateItemFromNode d node,
       ProcessLink d row (find (\<lambda>n. prop_of n ''id'' = prop_of row ''target'') nds)],
      case processLink opts d row (find (\<lambda>n. prop_of n ''id'' = prop_of row ''target'') nds) w2 of
        Inl e \<Rightarrow> Inl (Thrown e)
      | Inr w3 \<Rightarrow> Inr (items @ [(prop_of row ''source'', d)], w3))"
  using assms by (simp add: process_row_def fold_link_result map_set_absent split: sum.splits)

text \<open>What a row that succeeds has done.\<close>

lemma process_row_success:
  assumes "process_row opts nds row (items, w) = (cs, Inr (items', w'))"
  shows "(\<exists>d. map_of items (prop_of row ''source'') = Some d \<and> items' = items
            \<and> cs = [ProcessLink d row (find (\<lambda>n. prop_of n ''id'' = prop_of row ''target'') nds)])
       \<or> (\<exists>d node. map_of items (prop_of row ''source'') = None
            \<and> find (source_matches (nodeFilter opts) row) nds = Some node
            \<and> items' = items @ [(prop_of row ''source'', d)]
            \<and> cs = [CreateEmptyItem (Some d), PopulateItemFromNode d node,
                 ProcessLink d row (find (\<lambda>n. prop_of n ''id'' = prop_of row ''target'') nds)])"
  using assms
  by (auto simp: process_row_def fold_link_result map_set_present map_set_absent
      split: option.splits sum.splits prod.splits)

lemma scan_links_append:
  "scan_links opts nds (pre @ post) s =
     (case scan_links opts nds pre s of
        (cs, Inl e) \<Rightarrow> (cs, Inl e)
      | (cs, Inr s') \<Rightarrow> (case scan_links opts nds post s' of (cs', r) \<Rightarrow> (cs @ cs', r)))"
  by (induction pre arbitrary: s) (auto split: prod.splits sum.splits)


lemma scan_links_snoc:
  "scan_links opts nds (pre @ [row]) s =
     (case scan_links opts nds pre s of
        (cs, Inl e) \<Rightarrow> (cs, Inl e)
      | (cs, Inr s') \<Rightarrow> (case process_row opts nds row s' of (cs', r) \<Rightarrow> (cs @ cs', r)))"
  by (auto simp: scan_links_append split: prod.splits sum.splits)

lemma map_of_None_keys: "map_of items k = None \<longleftrightarrow> k \<notin> set (map fst items)"
  by (simp add: map_of_eq_None_iff)

lemma source_matches_id:
  "find (source_matches nf row) nds = Some node \<Longrightarrow> prop_of node ''id'' = prop_of row ''source''"
  by (auto simp: find_Some_iff source_matches_def split: if_splits)

lemma calls_append:
  "created (cs @ cs') = created cs @ created cs'"
  "populated (cs @ cs') = populated cs @ populated cs'"
  "folded (cs @ cs') = folded cs @ folded cs'"
  by (simp_all add: created_def populated_def folded_def)

lemma map_of_append_old:
  "map_of items k = Some d \<Longrightarrow> map_of (items @ extra) k = Some d"
  by (simp add: map_add_def)

text \<open>The invariant of the scan, from the empty map.\<close>

lemma scan_links_invariant:
  "scan_links opts nds rows ([], w) = (cs, Inr (items, w')) \<Longrightarrow>
     map fst items = rev (remdups (rev (sources rows)))
     \<and> created cs = map snd items
     \<and> populated cs = items
     \<and> map fst (folded cs) = rows
     \<and> (\<forall>(l, d) \<in> set (folded cs). map_of items (prop_of l ''source'') = Some d)"
proof (induction rows arbitrary: cs items w' rule: rev_induct)
  case Nil
  then show ?case by (simp add: created_def populated_def folded_def)
next
  case (snoc row pre)
  from snoc.prems obtain cs1 items1 w1 cs2
    where pre: "scan_links opts nds pre ([], w) = (cs1, Inr (items1, w1))"
      and row: "process_row opts nds row (items1, w1) = (cs2, Inr (items, w'))"
      and cs: "cs = cs1 @ cs2"
    by (auto simp: scan_links_snoc split: prod.splits sum.splits)
  from snoc.IH[OF pre]
  have keys1: "map fst items1 = rev (remdups (rev (sources pre)))"
    and created1: "created cs1 = map snd items1"
    and populated1: "populated cs1 = items1"
    and folded1: "map fst (folded cs1) = pre"
    and same1: "\<forall>(l, d) \<in> set (folded cs1). map_of items1 (prop_of l ''source'') = Some d"
    by blast+
  have set_keys1: "set (map fst items1) = set (sources pre)"
    by (simp add: keys1)
  from process_row_success[OF row] show ?case
  proof (elim disjE exE conjE)
    fix d
    assume known: "map_of items1 (prop_of row ''source'') = Some d"
      and items: "items = items1"
      and cs2: "cs2 = [ProcessLink d row (find (\<lambda>n. prop_of n ''id'' = prop_of row ''target'') nds)]"
    from known have "prop_of row ''source'' \<in> set (map fst items1)"
      by (metis map_of_None_keys option.distinct(1))
    then have seen: "prop_of row ''source'' \<in> set (sources pre)"
      using set_keys1 by simp
    have c2: "created cs2 = []" "populated cs2 = []" "folded cs2 = [(row, d)]"
      by (simp_all add: cs2 created_def populated_def folded_def)
    have "map fst items = rev (remdups (rev (sources (pre @ [row]))))"
      using keys1 items seen by simp
    moreover have "created cs = map snd items"
      by (simp add: cs calls_append c2 created1 items)
    moreover have "populated cs = items"
      by (simp add: cs calls_append c2 populated1 items)
    moreover have "map fst (folded cs) = pre @ [row]"
      by (simp add: cs calls_append c2 folded1)
    moreover have "\<forall>(l, d) \<in> set (folded cs). map_of items (prop_of l ''source'') = Some d"
      using same1 known by (simp add: cs calls_append c2 items)
    ultimately show ?thesis by simp
  next
    fix d node
    assume new: "map_of items1 (prop_of row ''source'') = None"
      and found: "find (source_matches (nodeFilter opts) row) nds = Some node"
      and items: "items = items1 @ [(prop_of row ''source'', d)]"
      and cs2: "cs2 = [CreateEmptyItem (Some d), PopulateItemFromNode d node,
                 ProcessLink d row (find (\<lambda>n. prop_of n ''id'' = prop_of row ''target'') nds)]"
    from new have "prop_of row ''source'' \<notin> set (map fst items1)"
      by (simp add: map_of_None_keys)
    then have unseen: "prop_of row ''source'' \<notin> set (sources pre)"
      using set_keys1 by simp
    have c2: "created cs2 = [d]" "populated cs2 = [(prop_of row ''source'', d)]"
      "folded cs2 = [(row, d)]"
      by (simp_all add: cs2 created_def populated_def folded_def source_matches_id[OF found])
    have "map fst items = rev (remdups (rev (sources (pre @ [row]))))"
      using keys1 items unseen by simp
    moreover have "created cs = map snd items"
      by (simp add: cs calls_append c2 created1 items)
    moreover have "populated cs = items"
      by (simp add: cs calls_append c2 populated1 items)
    moreover have "map fst (folded cs) = pre @ [row]"
      by (simp add: cs calls_append c2 folded1)
    moreover have "\<forall>(l, d) \<in> set (folded cs). map_of items (prop_of l ''source'') = Some d"
    proof -
      have "map_of items (prop_of row ''source'') = Some d"
        using new by (simp add: items map_add_def)
      moreover have "\<forall>(l, d) \<in> set (folded cs1). map_of items (prop_of l ''source'') = Some d"
        using same1 by (auto simp: items dest: map_of_append_old)
      ultimately show ?thesis by (simp add: cs calls_append c2)
    qed
    ultimately show ?thesis by simp
  qed
qed


lemma process_row_no_sink:
  "process_row opts nds row s = (cs, r) \<Longrightarrow> filter is_GenerateMarkdown cs = []"
  by (cases s)
    (auto simp: process_row_def fold_link_result split: option.splits sum.splits prod.splits)

lemma scan_links_no_sink:
  "scan_links opts nds rows s = (cs, r) \<Longrightarrow> filter is_GenerateMarkdown cs = []"
proof (induction rows arbitrary: s cs r)
  case Nil
  then show ?case by simp
next
  case (Cons row rows)
  obtain cs1 r1 where row: "process_row opts nds row s = (cs1, r1)"
    by (cases "process_row opts nds row s")
  show ?case
  proof (cases r1)
    case (Inl e)
    with Cons.prems row have "cs = cs1" by simp
    then show ?thesis using process_row_no_sink[OF row] by simp
  next
    case (Inr s')
    obtain cs2 r2 where rest: "scan_links opts nds rows s' = (cs2, r2)"
      by (cases "scan_links opts nds rows s'")
    with Cons.prems row Inr have "cs = cs1 @ cs2" by simp
    then show ?thesis using process_row_no_sink[OF row] Cons.IH[OF rest] by simp
  qed
qed

lemma find_None_rejected:
  "find (source_matches nf row) nds = None \<longleftrightarrow>
     (\<forall>n \<in> set nds. prop_of n ''id'' = prop_of row ''source'' \<longrightarrow> (\<exists>f. nf = Some f \<and> \<not> f n))"
  by (auto simp: find_None_iff source_matches_def split: option.splits)

text \<open>
  Claim C1. When the links before a link have been scanned without error, none of them
  has the link's source id (so the source is needed for the first time), and every node
  with that id is rejected by the node filter (in particular when no node has the id),
  the run fails with the error whose message names the link's source and target. The
  calls made are those made for the earlier links: nothing is called for this link or a
  later one, and the sink is not invoked.
\<close>

theorem graphologyToMD_missing_source_node:
  assumes pre: "scan_links opts nds pre ([], w) = (cs, Inr (items, w1))"
    and first: "prop_of row ''source'' \<notin> set (sources pre)"
    and none: "\<forall>n \<in> set nds. prop_of n ''id'' = prop_of row ''source''
                 \<longrightarrow> (\<exists>f. nodeFilter opts = Some f \<and> \<not> f n)"
  shows "graphologyToMD opts \<lparr>nodes = nds, links = pre @ row # post\<rparr> w =
           (cs, Inl (Error (''No node found for '' @ to_string (prop_of row ''source'')
                            @ '' => '' @ to_string (prop_of row ''target''))))
         \<and> filter is_GenerateMarkdown cs = []"
proof -
  from scan_links_invariant[OF pre] have "map fst items = rev (remdups (rev (sources pre)))"
    by blast
  then have "set (map fst items) = set (sources pre)" by simp
  with first have absent: "map_of items (prop_of row ''source'') = None"
    by (simp add: map_of_None_keys)
  from none have "find (source_matches (nodeFilter opts) row) nds = None"
    by (simp add: find_None_rejected)
  with absent have "process_row opts nds row (items, w1) = ([], Inl (Error (no_node_found row)))"
    by (rule process_row_missing)
  then have "scan_links opts nds (row # post) (items, w1) = ([], Inl (Error (no_node_found row)))"
    by simp
  with pre have "scan_links opts nds (pre @ row # post) ([], w) = (cs, Inl (Error (no_node_found row)))"
    by (simp add: scan_links_append)
  then have "graphologyToMD opts \<lparr>nodes = nds, links = pre @ row # post\<rparr> w =
      (cs, Inl (Error (no_node_found row)))"
    by (simp add: graphologyToMD_def)
  then show ?thesis using scan_links_no_sink[OF pre] by (simp add: no_node_found_def)
qed


lemmas example_defs = node_A_def node_B_def node_C_def link_AB_def link_CA_def
  example_options_def process_row_def fold_link_def source_matches_def prop_of_def

theorem graphologyToMD_missing_source_node_witness:
  "graphologyToMD example_options \<lparr>nodes = [node_A, node_B, node_C], links = [link_AB, link_CA]\<rparr> []
     = ([CreateEmptyItem (Some 0), PopulateItemFromNode 0 node_A, ProcessLink 0 link_AB (Some node_B)],
        Inl (Error ''No node found for C => A''))"
proof -
  have pre: "scan_links example_options [node_A, node_B, node_C] [link_AB] ([], [])
      = ([CreateEmptyItem (Some 0), PopulateItemFromNode 0 node_A, ProcessLink 0 link_AB (Some node_B)],
         Inr ([(JStr ''A'', 0)], [[''A'', ''B'']]))"
    by (simp add: example_defs)
  have first: "prop_of link_CA ''source'' \<notin> set (sources [link_AB])"
    by (simp add: example_defs)
  have none: "\<forall>n \<in> set [node_A, node_B, node_C]. prop_of n ''id'' = prop_of link_CA ''source''
                 \<longrightarrow> (\<exists>f. nodeFilter example_options = Some f \<and> \<not> f n)"
    by (simp add: example_defs)
  from graphologyToMD_missing_source_node[OF pre first none, of "[]"] show ?thesis
    by (simp add: link_CA_def prop_of_def)
qed


lemma process_row_grows:
  "process_row opts nds row (items0, w) = (cs, Inr (items, w')) \<Longrightarrow> \<exists>extra. items = items0 @ extra"
  by (drule process_row_success) auto

lemma scan_links_grows:
  "scan_links opts nds rows (items0, w) = (cs, Inr (items, w')) \<Longrightarrow> \<exists>extra. items = items0 @ extra"
proof (induction rows arbitrary: items0 w cs)
  case Nil
  then show ?case by simp
next
  case (Cons row rows)
  from Cons.prems obtain cs1 items1 w1 cs2
    where row: "process_row opts nds row (items0, w) = (cs1, Inr (items1, w1))"
      and rest: "scan_links opts nds rows (items1, w1) = (cs2, Inr (items, w'))"
    by (auto split: prod.splits sum.splits)
  from process_row_grows[OF row] Cons.IH[OF rest] show ?case by auto
qed

lemma scan_links_split:
  assumes "scan_links opts nds (pre @ row # post) s = (cs, Inr s'')"
  shows "\<exists>cs1 s1 cs2 s2 cs3.
           scan_links opts nds pre s = (cs1, Inr s1)
         \<and> process_row opts nds row s1 = (cs2, Inr s2)
         \<and> scan_links opts nds post s2 = (cs3, Inr s'')
         \<and> cs = cs1 @ cs2 @ cs3"
  using assms by (auto simp: scan_links_append split: prod.splits sum.splits)


lemma graphologyToMD_success:
  assumes "graphologyToMD opts rows w = (cs, Inr w')"
  shows "\<exists>cs0 items w0. scan_links opts (nodes rows) (links rows) ([], w) = (cs0, Inr (items, w0))
           \<and> cs = cs0 @ [GenerateMarkdown items] \<and> generateMarkdown opts items w0 = Inr w'"
  using assms by (auto simp: graphologyToMD_def split: prod.splits sum.splits)

lemma replay_append:
  "replay opts cs1 w = Some (Inr w1) \<Longrightarrow> replay opts (cs1 @ cs2) w = replay opts cs2 w1"
  by (induction cs1 arbitrary: w) (auto split: option.splits sum.splits if_splits)

text \<open>
  The calls recorded for a row are the calls made: made in order from the world the row
  starts in, they return and leave the world the row leaves, or the last of them throws
  the error the row ends with. A row that ends with the aggregator's own error has made
  no call.
\<close>

lemma process_row_replay:
  assumes "process_row opts nds row (items, w) = (cs, r)"
  shows "(\<forall>items' w'. r = Inr (items', w') \<longrightarrow> replay opts cs w = Some (Inr w'))
       \<and> (\<forall>e. r = Inl (Thrown e) \<longrightarrow> replay opts cs w = Some (Inl e))
       \<and> (\<forall>m. r = Inl (Error m) \<longrightarrow> cs = [])"
  using assms
  by (auto simp: process_row_def fold_link_result split: option.splits sum.splits prod.splits)

lemma scan_links_replay:
  assumes "scan_links opts nds rows (items, w) = (cs, r)"
  shows "(\<forall>items' w'. r = Inr (items', w') \<longrightarrow> replay opts cs w = Some (Inr w'))
       \<and> (\<forall>e. r = Inl (Thrown e) \<longrightarrow> replay opts cs w = Some (Inl e))
       \<and> (\<forall>m. r = Inl (Error m) \<longrightarrow> (\<exists>w1. replay opts cs w = Some (Inr w1)))"
  using assms
proof (induction rows arbitrary: items w cs r)
  case Nil
  then show ?case by auto
next
  case (Cons row rows)
  obtain cs1 r1 where row: "process_row opts nds row (items, w) = (cs1, r1)"
    by (cases "process_row opts nds row (items, w)")
  note first = process_row_replay[OF row]
  show ?case
  proof (cases r1)
    case (Inl err)
    with Cons.prems row have "cs = cs1" "r = r1" by simp_all
    with first Inl show ?thesis by (cases err) auto
  next
    case (Inr s1)
    obtain items1 w1 where s1: "s1 = (items1, w1)" by (cases s1)
    obtain cs2 r2 where rest: "scan_links opts nds rows (items1, w1) = (cs2, r2)"
      by (cases "scan_links opts nds rows (items1, w1)")
    with Cons.prems row Inr s1 have cs: "cs = cs1 @ cs2" and r: "r = r2" by simp_all
    from first Inr s1 have "replay opts cs1 w = Some (Inr w1)" by simp
    then have "replay opts cs w = replay opts cs2 w1"
      by (simp add: cs replay_append)
    with Cons.IH[OF rest] r show ?thesis by simp
  qed
qed

lemma graphologyToMD_replay:
  assumes "graphologyToMD opts rows w = (cs, r)"
  shows "(\<forall>w'. r = Inr w' \<longrightarrow> replay opts cs w = Some (Inr w'))
       \<and> (\<forall>e. r = Inl (Thrown e) \<longrightarrow> replay opts cs w = Some (Inl e))
       \<and> (\<forall>m. r = Inl (Error m) \<longrightarrow> (\<exists>w1. replay opts cs w = Some (Inr w1)))"
proof -
  obtain cs0 r0 where scan: "scan_links opts (nodes rows) (links rows) ([], w) = (cs0, r0)"
    by (cases "scan_links opts (nodes rows) (links rows) ([], w)")
  note scanned = scan_links_replay[OF scan]
  show ?thesis
  proof (cases r0)
    case (Inl err)
    with assms scan have "cs = cs0" "r = Inl err" by (simp_all add: graphologyToMD_def)
    with scanned Inl show ?thesis by (cases err) auto
  next
    case (Inr s0)
    obtain items0 w0 where s0: "s0 = (items0, w0)" by (cases s0)
    from scanned Inr s0 have before: "replay opts cs0 w = Some (Inr w0)" by simp
    have sink: "replay opts (cs0 @ [GenerateMarkdown items0]) w =
        Some (generateMarkdown opts items0 w0)"
      by (simp add: replay_append[OF before] split: sum.splits)
    from assms scan Inr s0 show ?thesis
      by (auto simp: graphologyToMD_def sink split: sum.splits)
  qed
qed

text \<open>
  Claim C2. In a run that succeeds, the mapping handed to the sink has one entry for each
  distinct source id of the links and no other entry. The references the factory
  returned are the records of the mapping, and the populate calls are the entries of the
  mapping: each record was created once and populated once, from a node with the id of
  its key. The calls recorded are the calls made: made in their order from the world the
  run starts in, the factory returns the references recorded, every call returns, and
  they leave the world the run returns. For every link of the list, the calls of the run
  are the calls for the links before it, then the calls for this link, then the rest:
  for a source seen before, one call of the fold function, on the record the mapping
  holds for the source; for a new source, the factory, the populate call on the node
  found for the source, and the fold function, all on the record the mapping holds for
  the source.
\<close>

theorem graphologyToMD_one_record_per_source:
  assumes run: "graphologyToMD opts rows w = (cs, Inr w')"
  shows "\<exists>items. last cs = GenerateMarkdown items
       \<and> distinct (map fst items)
       \<and> set (map fst items) = set (map (\<lambda>row. prop_of row ''source'') (links rows))
       \<and> created cs = map snd items
       \<and> populated cs = items
       \<and> replay opts cs w = Some (Inr w')
       \<and> (\<forall>pre row post. links rows = pre @ row # post \<longrightarrow>
            (\<exists>d cs_row cs_post.
               map_of items (prop_of row ''source'') = Some d
             \<and> cs = fst (scan_links opts (nodes rows) pre ([], w)) @ cs_row @ cs_post
             \<and> (if prop_of row ''source'' \<in> set (map (\<lambda>row. prop_of row ''source'') pre)
                 then cs_row =
                   [ProcessLink d row
                      (find (\<lambda>n. prop_of n ''id'' = prop_of row ''target'') (nodes rows))]
                 else \<exists>node. find (source_matches (nodeFilter opts) row) (nodes rows) = Some node
                   \<and> cs_row =
                     [CreateEmptyItem (Some d), PopulateItemFromNode d node,
                      ProcessLink d row
                        (find (\<lambda>n. prop_of n ''id'' = prop_of row ''target'') (nodes rows))])))"
proof -
  from graphologyToMD_success[OF run] obtain cs0 items w0
    where scan: "scan_links opts (nodes rows) (links rows) ([], w) = (cs0, Inr (items, w0))"
      and cs: "cs = cs0 @ [GenerateMarkdown items]"
    by blast
  from scan_links_invariant[OF scan]
  have keys: "map fst items = rev (remdups (rev (sources (links rows))))"
    and created0: "created cs0 = map snd items"
    and populated0: "populated cs0 = items"
    by blast+
  have last: "last cs = GenerateMarkdown items"
    by (simp add: cs)
  have dist: "distinct (map fst items)"
    by (simp add: keys)
  have dom: "set (map fst items) = set (sources (links rows))"
    by (simp add: keys)
  have cr: "created cs = map snd items"
    by (simp add: cs calls_append created0) (simp add: created_def)
  have po: "populated cs = items"
    by (simp add: cs calls_append populated0) (simp add: populated_def)
  have each: "\<exists>d cs_row cs_post.
               map_of items (prop_of row ''source'') = Some d
             \<and> cs = fst (scan_links opts (nodes rows) pre ([], w)) @ cs_row @ cs_post
             \<and> (if prop_of row ''source'' \<in> set (sources pre)
                 then cs_row =
                   [ProcessLink d row
                      (find (\<lambda>n. prop_of n ''id'' = prop_of row ''target'') (nodes rows))]
                 else \<exists>node. find (source_matches (nodeFilter opts) row) (nodes rows) = Some node
                   \<and> cs_row =
                     [CreateEmptyItem (Some d), PopulateItemFromNode d node,
                      ProcessLink d row
                        (find (\<lambda>n. prop_of n ''id'' = prop_of row ''target'') (nodes rows))])"
    if split: "links rows = pre @ row # post" for pre row post
  proof -
    from scan split
    have "scan_links opts (nodes rows) (pre @ row # post) ([], w) = (cs0, Inr (items, w0))"
      by simp
    from scan_links_split[OF this] obtain cs1 items1 w1 cs2 items2 w2 cs3
      where pre: "scan_links opts (nodes rows) pre ([], w) = (cs1, Inr (items1, w1))"
        and row: "process_row opts (nodes rows) row (items1, w1) = (cs2, Inr (items2, w2))"
        and post: "scan_links opts (nodes rows) post (items2, w2) = (cs3, Inr (items, w0))"
        and cs0: "cs0 = cs1 @ cs2 @ cs3"
      by auto
    from scan_links_invariant[OF pre]
    have "map fst items1 = rev (remdups (rev (sources pre)))"
      by blast
    then have keys1: "set (map fst items1) = set (sources pre)"
      by simp
    from scan_links_grows[OF post] obtain extra where grown: "items = items2 @ extra"
      by blast
    have whole: "cs = fst (scan_links opts (nodes rows) pre ([], w)) @ cs2 @ (cs3 @ [GenerateMarkdown items])"
      by (simp add: cs cs0 pre)
    from process_row_success[OF row] show ?thesis
    proof (elim disjE exE conjE)
      fix d
      assume known: "map_of items1 (prop_of row ''source'') = Some d"
        and same: "items2 = items1"
        and cs2: "cs2 = [ProcessLink d row
                   (find (\<lambda>n. prop_of n ''id'' = prop_of row ''target'') (nodes rows))]"
      from known have "prop_of row ''source'' \<in> set (map fst items1)"
        by (metis map_of_None_keys option.distinct(1))
      then have seen: "prop_of row ''source'' \<in> set (sources pre)"
        using keys1 by simp
      have "map_of items (prop_of row ''source'') = Some d"
        using known by (simp add: grown same map_of_append_old)
      with whole cs2 seen show ?thesis by auto
    next
      fix d node
      assume new: "map_of items1 (prop_of row ''source'') = None"
        and found: "find (source_matches (nodeFilter opts) row) (nodes rows) = Some node"
        and items2: "items2 = items1 @ [(prop_of row ''source'', d)]"
        and cs2: "cs2 = [CreateEmptyItem (Some d), PopulateItemFromNode d node,
                   ProcessLink d row
                     (find (\<lambda>n. prop_of n ''id'' = prop_of row ''target'') (nodes rows))]"
      from new have "prop_of row ''source'' \<notin> set (map fst items1)"
        by (simp add: map_of_None_keys)
      then have unseen: "prop_of row ''source'' \<notin> set (sources pre)"
        using keys1 by simp
      have "map_of items2 (prop_of row ''source'') = Some d"
        using new by (simp add: items2 map_add_def)
      then have "map_of items (prop_of row ''source'') = Some d"
        by (simp add: grown map_of_append_old)
      with whole cs2 unseen found show ?thesis by auto
    qed
  qed
  have rp: "replay opts cs w = Some (Inr w')"
    using graphologyToMD_replay[OF run] by simp
  from last dist dom cr po rp each show ?thesis by blast
qed


lemma two_items_run:
  "graphologyToMD writing_options two_items [] =
     (two_items_calls, Inr [[''D'', ''B'', ''C''], [''A'', ''B''], [''D'', ''A'']])"
  by (simp add: graphologyToMD_def two_items_def two_items_calls_def writing_options_def
      example_defs node_D_def link_DB_def link_DC_def)

text \<open>
  A run over the links \<open>D \<rightarrow> B\<close>, \<open>A \<rightarrow> B\<close>, \<open>D \<rightarrow> C\<close>: two records, the
  third link folded into the record of the first.
\<close>

theorem graphologyToMD_one_record_per_source_witness:
  "\<exists>items d cs_post.
       last (fst (graphologyToMD writing_options two_items [])) = GenerateMarkdown items
     \<and> distinct (map fst items)
     \<and> set (map fst items) = {JStr ''D'', JStr ''A''}
     \<and> created (fst (graphologyToMD writing_options two_items [])) = map snd items
     \<and> populated (fst (graphologyToMD writing_options two_items [])) = items
     \<and> replay writing_options (fst (graphologyToMD writing_options two_items [])) []
         = Some (Inr [[''D'', ''B'', ''C''], [''A'', ''B''], [''D'', ''A'']])
     \<and> snd (graphologyToMD writing_options two_items [])
         = Inr [[''D'', ''B'', ''C''], [''A'', ''B''], [''D'', ''A'']]
     \<and> map_of items (JStr ''D'') = Some d
     \<and> fst (graphologyToMD writing_options two_items []) =
         fst (scan_links writing_options (nodes two_items) [link_DB, link_AB] ([], []))
           @ [ProcessLink d link_DC (Some node_C)] @ cs_post"
proof -
  from graphologyToMD_one_record_per_source[OF two_items_run] obtain items
    where a: "last two_items_calls = GenerateMarkdown items"
      and b: "distinct (map fst items)"
      and c: "set (map fst items) = set (map (\<lambda>row. prop_of row ''source'') (links two_items))"
      and d: "created two_items_calls = map snd items"
      and e: "populated two_items_calls = items"
      and r: "replay writing_options two_items_calls []
                = Some (Inr [[''D'', ''B'', ''C''], [''A'', ''B''], [''D'', ''A'']])"
      and f: "\<forall>pre row post. links two_items = pre @ row # post \<longrightarrow>
            (\<exists>d cs_row cs_post.
               map_of items (prop_of row ''source'') = Some d
             \<and> two_items_calls = fst (scan_links writing_options (nodes two_items) pre ([], [])) @ cs_row @ cs_post
             \<and> (if prop_of row ''source'' \<in> set (map (\<lambda>row. prop_of row ''source'') pre)
                 then cs_row =
                   [ProcessLink d row
                      (find (\<lambda>n. prop_of n ''id'' = prop_of row ''target'') (nodes two_items))]
                 else \<exists>node. find (source_matches (nodeFilter writing_options) row) (nodes two_items) = Some node
                   \<and> cs_row =
                     [CreateEmptyItem (Some d), PopulateItemFromNode d node,
                      ProcessLink d row
                        (find (\<lambda>n. prop_of n ''id'' = prop_of row ''target'') (nodes two_items))]))"
    by blast
  have split: "links two_items = [link_DB, link_AB] @ link_DC # []"
    by (simp add: two_items_def)
  have seen: "prop_of link_DC ''source'' \<in> set (map (\<lambda>row. prop_of row ''source'') [link_DB, link_AB])"
    by (simp add: link_DB_def link_DC_def prop_of_def)
  have target: "find (\<lambda>n. prop_of n ''id'' = prop_of link_DC ''target'') (nodes two_items) = Some node_C"
    by (simp add: two_items_def link_DC_def node_A_def node_B_def node_C_def prop_of_def)
  have src: "prop_of link_DC ''source'' = JStr ''D''"
    by (simp add: link_DC_def prop_of_def)
  from f[rule_format, OF split] seen target src obtain d cs_post
    where g: "map_of items (JStr ''D'') = Some d"
      and h: "two_items_calls =
           fst (scan_links writing_options (nodes two_items) [link_DB, link_AB] ([], []))
             @ [ProcessLink d link_DC (Some node_C)] @ cs_post"
    by auto
  have c': "set (map fst items) = {JStr ''D'', JStr ''A''}"
    using c by (auto simp: two_items_def link_DB_def link_AB_def link_DC_def prop_of_def)
  have calls: "fst (graphologyToMD writing_options two_items []) = two_items_calls"
    by (simp add: two_items_run)
  have world: "snd (graphologyToMD writing_options two_items [])
      = Inr [[''D'', ''B'', ''C''], [''A'', ''B''], [''D'', ''A'']]"
    by (simp add: two_items_run)
  from a b c' d e r g h show ?thesis
    unfolding calls world by (intro exI[of _ items] exI[of _ d] exI[of _ cs_post]) simp
qed















end
